theory Spec2Isabelle
  imports Complex_Main "HOL-Library.Sublist"
begin

section \<open>The public feed of lantern (feed.go)\<close>

text \<open>
  A shallow embedding of \<^verbatim>\<open>src/github.com/getlantern/lantern/feed.go\<close>. Go strings are
  byte sequences, so a string is a \<open>char list\<close> whose length is \<^verbatim>\<open>len\<close>. A Go map is
  a partial function; the nil map and the empty map read alike and are both \<open>Map.empty\<close>.
  The package-level variables \<^verbatim>\<open>feed\<close> and \<^verbatim>\<open>httpClient\<close> are fields of an explicit
  state, together with the calls received by the collaborators (logger, provider, HTTP
  layer). A run-time panic is a value of type \<open>fault\<close>, returned with the state reached
  when it was raised. The provider and the retriever are taken to be non-nil and their
  methods to return.
\<close>

subsection \<open>Data model\<close>

text \<open>
  What \<^verbatim>\<open>encoding/json\<close> stores in an \<^verbatim>\<open>interface{}\<close>: nil for null, bool, float64,
  string, []interface{} and map[string]interface{}. The program never reads the number.
\<close>

datatype json =
    JNull
  | JBool bool
  | JNumber real
  | JString string
  | JArray "json list"
  | JObject "(string \<times> json) list"

text \<open>
  The fields \<^verbatim>\<open>Title\<close> and \<^verbatim>\<open>Entries\<close> of \<^verbatim>\<open>Source\<close> are written \<open>SourceTitle\<close> and
  \<open>SourceEntries\<close>, since \<^verbatim>\<open>FeedItem\<close> and \<^verbatim>\<open>Feed\<close> have fields of the same names. A Go
  \<^verbatim>\<open>int\<close> index is an \<open>int\<close>: every value outside the entries is out of range, whatever
  its size.
\<close>

record Source =
  FeedUrl :: string
  SourceTitle :: string
  Url :: string
  SourceEntries :: "int list"

record FeedItem =
  Title :: string
  Link :: string
  Image :: string
  Meta :: "string \<rightharpoonup> json"
  Description :: string

type_synonym FeedItems = "FeedItem list"

record Feed =
  Feeds :: "string \<rightharpoonup> Source"
  Entries :: FeedItems
  Items :: "string \<rightharpoonup> FeedItems"

datatype fault =
    IndexOutOfRange int nat
  | InterfaceConversion json

type_synonym err = string

datatype logArg = ArgErr err | ArgInt nat | ArgStr string

datatype logEntry = Errorf string logArg | Debugf string logArg

text \<open>
  The state: the two package-level variables, and the calls made so far to the logger,
  to \<^verbatim>\<open>http.NewRequest\<close> (method and URL) and to \<^verbatim>\<open>provider.AddSource\<close>, oldest first.
\<close>

record 'c world =
  feed :: Feed
  httpClient :: "'c option"
  logged :: "logEntry list"
  requests :: "(string \<times> string) list"
  provider :: "string list"

text \<open>The calls received by a \<^verbatim>\<open>FeedRetriever\<close>.\<close>

datatype retrieverCall = AddFeed string string string string | Finish

subsection \<open>Library functions the program calls\<close>

text \<open>
  \<^verbatim>\<open>strings.TrimSpace\<close> of the Go standard library removes the leading and the trailing
  white space of a UTF-8 string, white space being the runes of \<^verbatim>\<open>unicode.IsSpace\<close>:
  U+0009 to U+000D, U+0020, U+0085, U+00A0, U+1680, U+2000 to U+200A, U+2028, U+2029,
  U+202F, U+205F and U+3000. A rune is decoded as one of them exactly when the bytes
  are its UTF-8 encoding (any ill-formed sequence decodes to U+FFFD), so trimming
  removes these encodings from the front and from the back.
\<close>

definition spaceRunes :: "string list" where
  "spaceRunes =
     [[CHR 0x09], [CHR 0x0A], [CHR 0x0B], [CHR 0x0C], [CHR 0x0D], [CHR 0x20],
      [CHR 0xC2, CHR 0x85], [CHR 0xC2, CHR 0xA0], [CHR 0xE1, CHR 0x9A, CHR 0x80]]
     @ map (\<lambda>b. [CHR 0xE2, CHR 0x80, b])
         [CHR 0x80, CHR 0x81, CHR 0x82, CHR 0x83, CHR 0x84, CHR 0x85, CHR 0x86, CHR 0x87,
          CHR 0x88, CHR 0x89, CHR 0x8A, CHR 0xA8, CHR 0xA9, CHR 0xAF]
     @ [[CHR 0xE2, CHR 0x81, CHR 0x9F], [CHR 0xE3, CHR 0x80, CHR 0x80]]"

definition startsWith :: "string \<Rightarrow> string \<Rightarrow> bool" where
  "startsWith w s = (take (length w) s = w)"

fun stripRunes :: "string list \<Rightarrow> string \<Rightarrow> string" where
  "stripRunes ws [] = []"
| "stripRunes ws (c # cs) =
     (case find (\<lambda>w. w \<noteq> [] \<and> startsWith w (c # cs)) ws of
        None \<Rightarrow> c # cs
      | Some w \<Rightarrow> stripRunes ws (drop (length w - 1) cs))"

definition TrimLeft :: "string \<Rightarrow> string" where
  "TrimLeft s = stripRunes spaceRunes s"

definition TrimRight :: "string \<Rightarrow> string" where
  "TrimRight s = rev (stripRunes (map rev spaceRunes) (rev s))"

definition TrimSpace :: "string \<Rightarrow> string" where
  "TrimSpace s = TrimRight (TrimLeft s)"

text \<open>
  \<^verbatim>\<open>fmt.Sprintf\<close> with string arguments, for a format whose only verb is \<^verbatim>\<open>%s\<close> (the
  one \<^verbatim>\<open>feedEndpoint\<close> uses): a verb is replaced by the next argument, and by
  \<^verbatim>\<open>%!s(MISSING)\<close> when the arguments have run out.
\<close>

fun Sprintf :: "string \<Rightarrow> string list \<Rightarrow> string" where
  "Sprintf [] args = []"
| "Sprintf [c] args = [c]"
| "Sprintf (c # d # fmt) args =
     (if c = CHR ''%'' \<and> d = CHR ''s''
      then (case args of
              [] \<Rightarrow> ''%!s(MISSING)'' @ Sprintf fmt []
            | a # as \<Rightarrow> a @ Sprintf fmt as)
      else c # Sprintf (d # fmt) args)"

text \<open>
  The HTTP layer and the JSON decoder are collaborators; their answers are parameters.
  \<open>NewRequest\<close> answers the error of \<^verbatim>\<open>http.NewRequest\<close>, if any; \<open>plainClient\<close> is
  \<^verbatim>\<open>&http.Client{}\<close>; \<open>HTTPClient\<close> is \<^verbatim>\<open>util.HTTPClient\<close> on the proxy address; \<open>Do\<close> takes
  the client and the request (method and URL); \<open>ReadAll\<close> reads the body of a response;
  \<open>Unmarshal\<close> decodes the contents into the feed it is given and answers its error,
  if any, with the feed as the decoder left it. The client that \<^verbatim>\<open>util.HTTPClient\<close>
  returns next to an error is taken to be nil.
\<close>

record ('c, 'r) env =
  NewRequest :: "string \<Rightarrow> string \<Rightarrow> err option"
  plainClient :: 'c
  HTTPClient :: "string \<Rightarrow> err + 'c"
  Do :: "'c \<Rightarrow> string \<times> string \<Rightarrow> err + 'r"
  ReadAll :: "'r \<Rightarrow> err + string"
  Unmarshal :: "string \<Rightarrow> Feed \<Rightarrow> err option \<times> Feed"

subsection \<open>Constants\<close>

definition feedEndpoint :: string where
  "feedEndpoint = ''https://feeds.getiantem.org/%s/feed.json''"

definition supportedLocales :: "string \<rightharpoonup> bool" where
  "supportedLocales =
     map_of [(''en_US'', True), (''fa_IR'', True), (''fa'', True), (''zh_CN'', True)]"

text \<open>Indexing a \<^verbatim>\<open>map[string]bool\<close>: the zero value \<^verbatim>\<open>false\<close> for a missing key.\<close>

definition supported :: "string \<Rightarrow> bool" where
  "supported locale = (case supportedLocales locale of None \<Rightarrow> False | Some b \<Rightarrow> b)"

subsection \<open>FeedByName\<close>

text \<open>Indexing a \<^verbatim>\<open>map[string]FeedItems\<close>: the nil slice for a missing key.\<close>

definition itemsAt :: "(string \<rightharpoonup> FeedItems) \<Rightarrow> string \<Rightarrow> FeedItems" where
  "itemsAt m k = (case m k of None \<Rightarrow> [] | Some xs \<Rightarrow> xs)"

text \<open>The loop of \<^verbatim>\<open>FeedByName\<close>; the retriever is the list of the calls it has received.\<close>

fun addFeeds :: "FeedItems \<Rightarrow> retrieverCall list \<Rightarrow> retrieverCall list" where
  "addFeeds [] retriever = retriever"
| "addFeeds (i # items) retriever =
     addFeeds items (retriever @ [AddFeed (Title i) (Description i) (Image i) (Link i)])"

definition FeedByName :: "string \<Rightarrow> retrieverCall list \<Rightarrow> 'c world \<Rightarrow> retrieverCall list" where
  "FeedByName name retriever w =
     (let retriever' = (case Items (feed w) name of
                          Some items \<Rightarrow> addFeeds items retriever
                        | None \<Rightarrow> retriever)
      in retriever' @ [Finish])"

subsection \<open>processFeed\<close>

text \<open>
  Ranging over \<^verbatim>\<open>feed.Feeds\<close> visits every key once, in an order that Go leaves open and
  that may differ from one loop to the next. The order of a loop is a parameter: a list
  of keys. The values are visited in that order.
\<close>

fun rangeFeeds :: "(string \<rightharpoonup> Source) \<Rightarrow> string list \<Rightarrow> Source list" where
  "rangeFeeds m [] = []"
| "rangeFeeds m (k # ks) =
     (case m k of None \<Rightarrow> rangeFeeds m ks | Some s \<Rightarrow> s # rangeFeeds m ks)"

definition iteration :: "(string \<rightharpoonup> Source) \<Rightarrow> string list \<Rightarrow> bool" where
  "iteration m ks = (distinct ks \<and> set ks = dom m)"

text \<open>Lines 143 to 148: the sources are sent to the provider.\<close>

fun addSources :: "Source list \<Rightarrow> 'c world \<Rightarrow> 'c world" where
  "addSources [] w = w"
| "addSources (s # ss) w =
     (if SourceTitle s \<noteq> ''''
      then addSources ss
             (w\<lparr>logged := logged w @ [Debugf ''Adding feed source: %s'' (ArgStr (SourceTitle s))],
                provider := provider w @ [SourceTitle s]\<rparr>)
      else addSources ss w)"

text \<open>
  Lines 152 to 157, for one entry. A missing key and a null both read as nil; the type
  assertion \<^verbatim>\<open>aDesc.(string)\<close> panics on any other value that is not a string.
  \<^verbatim>\<open>int(math.Min(float64(len(desc)), 150))\<close> is the smaller of the length and 150 (the
  conversion to float64 is exact below \<open>2 ^ 53\<close>).
\<close>

fun assertString :: "json \<Rightarrow> fault + string" where
  "assertString (JString s) = Inr s"
| "assertString v = Inl (InterfaceConversion v)"

definition trimmedDescription :: "FeedItem \<Rightarrow> fault + string" where
  "trimmedDescription entry =
     (case Meta entry ''description'' of
        None \<Rightarrow> Inr ''''
      | Some JNull \<Rightarrow> Inr ''''
      | Some aDesc \<Rightarrow>
          (case assertString aDesc of Inl flt \<Rightarrow> Inl flt | Inr s \<Rightarrow> Inr (TrimSpace s)))"

definition shorten :: "string \<Rightarrow> string" where
  "shorten desc = take (min (length desc) 150) desc"

definition describe :: "FeedItem \<Rightarrow> fault + FeedItem" where
  "describe entry =
     (case trimmedDescription entry of
        Inl flt \<Rightarrow> Inl flt
      | Inr desc \<Rightarrow> Inr (entry\<lparr>Description := shorten desc\<rparr>))"

text \<open>
  Lines 151 to 158: the entries are described in place, from the first one on. At a panic
  the entries before it are described, the others are as they were.
\<close>

fun describeEntries :: "FeedItems \<Rightarrow> fault option \<times> FeedItems" where
  "describeEntries [] = (None, [])"
| "describeEntries (entry # entries) =
     (case describe entry of
        Inl flt \<Rightarrow> (Some flt, entry # entries)
      | Inr entry' \<Rightarrow>
          (case describeEntries entries of (r, entries') \<Rightarrow> (r, entry' # entries')))"

text \<open>Lines 161 to 166: the entries of one source are appended under its title.\<close>

fun appendEntries ::
  "FeedItems \<Rightarrow> string \<Rightarrow> int list \<Rightarrow> (string \<rightharpoonup> FeedItems) \<Rightarrow> fault option \<times> (string \<rightharpoonup> FeedItems)"
where
  "appendEntries entries title [] items = (None, items)"
| "appendEntries entries title (i # is) items =
     (if 0 \<le> i \<and> i < int (length entries)
      then appendEntries entries title is
             (items(title \<mapsto> itemsAt items title @ [entries ! nat i]))
      else (Some (IndexOutOfRange i (length entries)), items))"

text \<open>Lines 160 to 167.\<close>

fun groupSources ::
  "FeedItems \<Rightarrow> Source list \<Rightarrow> (string \<rightharpoonup> FeedItems) \<Rightarrow> fault option \<times> (string \<rightharpoonup> FeedItems)"
where
  "groupSources entries [] items = (None, items)"
| "groupSources entries (s # ss) items =
     (case appendEntries entries (SourceTitle s) (SourceEntries s) items of
        (Some flt, items') \<Rightarrow> (Some flt, items')
      | (None, items') \<Rightarrow> groupSources entries ss items')"

text \<open>
  For the statements: the entries that the sources titled \<open>k\<close> list, source after source
  in the order of the loop, each source's entries in the order it lists them.
\<close>

definition picked :: "FeedItems \<Rightarrow> Source list \<Rightarrow> string \<Rightarrow> FeedItems" where
  "picked es ss k =
     concat (map (\<lambda>s. map (\<lambda>i. es ! nat i) (SourceEntries s))
               (filter (\<lambda>s. SourceTitle s = k) ss))"

text \<open>
  \<^verbatim>\<open>processFeed\<close>, with the orders of its two loops over \<^verbatim>\<open>feed.Feeds\<close>. The slice stored
  under \<^verbatim>\<open>"all"\<close> shares its array with \<^verbatim>\<open>feed.Entries\<close>, so the descriptions written
  into the entries are seen under \<^verbatim>\<open>"all"\<close> too. The entries appended under a title are
  copies, taken after the descriptions were written.
\<close>

definition processFeed :: "string list \<Rightarrow> string list \<Rightarrow> 'c world \<Rightarrow> fault option \<times> 'c world" where
  "processFeed order1 order2 w =
     (let w1 = w\<lparr>logged := logged w @
                   [Debugf ''Num of Feed Entries: %v'' (ArgInt (length (Entries (feed w))))]\<rparr>;
          f1 = (feed w1)\<lparr>Items := Map.empty\<rparr>;
          f2 = f1\<lparr>Items := (Items f1)(''all'' \<mapsto> Entries f1)\<rparr>;
          w2 = addSources (rangeFeeds (Feeds f2) order1) (w1\<lparr>feed := f2\<rparr>);
          (r, entries) = describeEntries (Entries f2);
          f3 = f2\<lparr>Entries := entries, Items := (Items f2)(''all'' \<mapsto> entries)\<rparr>
      in case r of
           Some flt \<Rightarrow> (Some flt, w2\<lparr>feed := f3\<rparr>)
         | None \<Rightarrow>
             (case groupSources entries (rangeFeeds (Feeds f3) order2) (Items f3) of
                (r', items) \<Rightarrow> (r', w2\<lparr>feed := f3\<lparr>Items := items\<rparr>\<rparr>)))"

subsection \<open>GetFeed\<close>

definition GetFeed ::
  "('c, 'r) env \<Rightarrow> string list \<Rightarrow> string list \<Rightarrow> string \<Rightarrow> string \<Rightarrow> 'c world \<Rightarrow> fault option \<times> 'c world"
where
  "GetFeed e order1 order2 locale proxyAddr w =
     (let locale' = (if \<not> supported locale then ''en_US'' else locale);
          feedUrl = Sprintf feedEndpoint [locale'];
          w1 = w\<lparr>requests := requests w @ [(''GET'', feedUrl)]\<rparr>
      in case NewRequest e ''GET'' feedUrl of
           Some er \<Rightarrow> (None, w1\<lparr>logged := logged w1 @ [Errorf ''Error fetching feed: %v'' (ArgErr er)]\<rparr>)
         | None \<Rightarrow>
             (case (if proxyAddr = '''' then Inr (plainClient e) else HTTPClient e proxyAddr) of
                Inl er \<Rightarrow>
                  (None, w1\<lparr>httpClient := None,
                            logged := logged w1 @ [Errorf ''Error creating client: %v'' (ArgErr er)]\<rparr>)
              | Inr c \<Rightarrow>
                  (let w2 = w1\<lparr>httpClient := Some c\<rparr>
                   in case Do e c (''GET'', feedUrl) of
                        Inl er \<Rightarrow>
                          (None, w2\<lparr>logged := logged w2 @ [Errorf ''Error fetching feed: %v'' (ArgErr er)]\<rparr>)
                      | Inr res \<Rightarrow>
                          (case ReadAll e res of
                             Inl er \<Rightarrow>
                               (None, w2\<lparr>logged := logged w2 @ [Errorf ''Error reading body: %v'' (ArgErr er)]\<rparr>)
                           | Inr contents \<Rightarrow>
                               processFeed order1 order2
                                 (w2\<lparr>feed := snd (Unmarshal e contents (feed w2))\<rparr>)))))"

text \<open>
  The URL that lines 91 to 97 compute and the client that lines 104 to 112 choose, named
  for the statements.
\<close>

definition feedUrlOf :: "string \<Rightarrow> string" where
  "feedUrlOf locale = Sprintf feedEndpoint [if \<not> supported locale then ''en_US'' else locale]"

definition clientFor :: "('c, 'r) env \<Rightarrow> string \<Rightarrow> err + 'c" where
  "clientFor e proxyAddr =
     (if proxyAddr = '''' then Inr (plainClient e) else HTTPClient e proxyAddr)"

subsection \<open>Example feeds\<close>

definition itemA :: FeedItem where
  "itemA = \<lparr>Title = ''A'', Link = ''http://a'', Image = ''a.png'',
            Meta = [''description'' \<mapsto> JString ''  hello world  ''], Description = ''''\<rparr>"

definition itemB :: FeedItem where
  "itemB = \<lparr>Title = ''B'', Link = ''http://b'', Image = ''b.png'',
            Meta = Map.empty, Description = ''''\<rparr>"

definition itemC :: FeedItem where
  "itemC = \<lparr>Title = ''C'', Link = ''http://c'', Image = ''c.png'',
            Meta = [''description'' \<mapsto> JString ('' c'' @ replicate 200 (CHR ''.'') @ ''d  '')],
            Description = ''''\<rparr>"

definition itemD :: FeedItem where
  "itemD = \<lparr>Title = ''D'', Link = ''http://d'', Image = ''d.png'',
            Meta = [''description'' \<mapsto> JNumber 42], Description = ''''\<rparr>"

definition sourceOf :: "string \<Rightarrow> int list \<Rightarrow> Source" where
  "sourceOf title is =
     \<lparr>FeedUrl = ''http://feed'', SourceTitle = title, Url = ''http://site'', SourceEntries = is\<rparr>"

definition feedOf :: "(string \<rightharpoonup> Source) \<Rightarrow> FeedItems \<Rightarrow> Feed" where
  "feedOf sources entries = \<lparr>Feeds = sources, Entries = entries, Items = Map.empty\<rparr>"

definition worldOf :: "Feed \<Rightarrow> unit world" where
  "worldOf f = \<lparr>feed = f, httpClient = None, logged = [], requests = [], provider = []\<rparr>"

definition feedX :: Feed where
  "feedX = feedOf [''X'' \<mapsto> sourceOf ''X'' [0, 2]] [itemA, itemB, itemC]"

definition feedTwin :: Feed where
  "feedTwin =
     feedOf [''a'' \<mapsto> sourceOf ''X'' [0], ''b'' \<mapsto> sourceOf ''X'' [1]] [itemA, itemB]"

definition feedAll :: Feed where
  "feedAll = feedOf [''s'' \<mapsto> sourceOf ''all'' [0]] [itemB]"

definition feedAnon :: Feed where
  "feedAnon = feedOf [''anon'' \<mapsto> sourceOf '''' [1]] [itemA, itemB]"

definition feedDangling :: Feed where
  "feedDangling = feedOf [''X'' \<mapsto> sourceOf ''X'' [0, 3]] [itemA, itemB, itemC]"

text \<open>
  Every white-space rune once, in UTF-8, written out byte by byte; an entry whose
  description has them on both sides of a text that begins and ends with U+200B (a rune
  that is not white space) and holds a tab; and a feed whose first entry stops the loop
  of the descriptions.
\<close>

definition everySpace :: string where
  "everySpace =
     [CHR 0x09, CHR 0x0A, CHR 0x0B, CHR 0x0C, CHR 0x0D, CHR 0x20,
      CHR 0xC2, CHR 0x85, CHR 0xC2, CHR 0xA0, CHR 0xE1, CHR 0x9A, CHR 0x80,
      CHR 0xE2, CHR 0x80, CHR 0x80, CHR 0xE2, CHR 0x80, CHR 0x81, CHR 0xE2, CHR 0x80, CHR 0x82,
      CHR 0xE2, CHR 0x80, CHR 0x83, CHR 0xE2, CHR 0x80, CHR 0x84, CHR 0xE2, CHR 0x80, CHR 0x85,
      CHR 0xE2, CHR 0x80, CHR 0x86, CHR 0xE2, CHR 0x80, CHR 0x87, CHR 0xE2, CHR 0x80, CHR 0x88,
      CHR 0xE2, CHR 0x80, CHR 0x89, CHR 0xE2, CHR 0x80, CHR 0x8A, CHR 0xE2, CHR 0x80, CHR 0xA8,
      CHR 0xE2, CHR 0x80, CHR 0xA9, CHR 0xE2, CHR 0x80, CHR 0xAF, CHR 0xE2, CHR 0x81, CHR 0x9F,
      CHR 0xE3, CHR 0x80, CHR 0x80]"

definition spacedText :: string where
  "spacedText =
     [CHR 0xE2, CHR 0x80, CHR 0x8B] @ ''hello'' @ [CHR 0x09] @ ''world'' @ [CHR 0xE2, CHR 0x80, CHR 0x8B]"

definition itemW :: FeedItem where
  "itemW = \<lparr>Title = ''W'', Link = ''http://w'', Image = ''w.png'',
            Meta = [''description'' \<mapsto> JString (everySpace @ spacedText @ everySpace)],
            Description = ''''\<rparr>"

definition feedW :: Feed where
  "feedW = feedOf Map.empty [itemB, itemW]"

definition feedBlocked :: Feed where
  "feedBlocked = feedOf Map.empty [itemD, itemA]"

definition envOf ::
  "err option \<Rightarrow> err + unit \<Rightarrow> err + unit \<Rightarrow> err + string \<Rightarrow> err option \<times> Feed \<Rightarrow> (unit, unit) env"
where
  "envOf request client response body decoded =
     \<lparr>NewRequest = (\<lambda>method url. request), plainClient = (), HTTPClient = (\<lambda>addr. client),
      Do = (\<lambda>c req. response), ReadAll = (\<lambda>res. body),
      Unmarshal = (\<lambda>contents f. decoded)\<rparr>"

section \<open>Properties\<close>

lemmas example_defs =
  itemA_def itemB_def itemC_def itemD_def sourceOf_def feedOf_def worldOf_def feedX_def envOf_def
  feedTwin_def feedAll_def feedAnon_def feedDangling_def

lemmas run_defs =
  processFeed_def describe_def trimmedDescription_def itemsAt_def shorten_def
  TrimSpace_def TrimLeft_def TrimRight_def spaceRunes_def startsWith_def

subsection \<open>The loops\<close>

lemma addFeeds_append:
  "addFeeds items retriever =
     retriever @ map (\<lambda>i. AddFeed (Title i) (Description i) (Image i) (Link i)) items"
  by (induction items arbitrary: retriever) simp_all

lemma FeedByName_itemsAt:
  "FeedByName name retriever w =
     retriever
     @ map (\<lambda>i. AddFeed (Title i) (Description i) (Image i) (Link i))
         (itemsAt (Items (feed w)) name)
     @ [Finish]"
  by (simp add: FeedByName_def itemsAt_def addFeeds_append split: option.splits)

lemma set_rangeFeeds: "set (rangeFeeds m ks) = {s. \<exists>k\<in>set ks. m k = Some s}"
  by (induction ks) (auto split: option.splits)

lemma rangeFeeds_ran: "iteration m ks \<Longrightarrow> set (rangeFeeds m ks) = ran m"
proof -
  assume "iteration m ks"
  then have "set ks = dom m" by (simp add: iteration_def)
  then show ?thesis
    unfolding set_rangeFeeds ran_def by blast
qed

lemma filter_rangeFeeds_none:
  "\<forall>k'\<in>set ks. \<forall>s'. m k' = Some s' \<longrightarrow> \<not> P s' \<Longrightarrow> filter P (rangeFeeds m ks) = []"
  by (induction ks) (auto split: option.splits)

lemma filter_rangeFeeds_one:
  assumes "distinct ks" and "k \<in> set ks" and "m k = Some s" and "P s"
    and "\<And>k' s'. k' \<in> set ks \<Longrightarrow> m k' = Some s' \<Longrightarrow> P s' \<Longrightarrow> k' = k"
  shows "filter P (rangeFeeds m ks) = [s]"
  using assms
proof (induction ks)
  case Nil
  then show ?case by simp
next
  case (Cons a ks)
  show ?case
  proof (cases "a = k")
    case True
    from Cons.prems(1) True have notin: "k \<notin> set ks" by simp
    have "\<forall>k'\<in>set ks. \<forall>s'. m k' = Some s' \<longrightarrow> \<not> P s'"
    proof (intro ballI allI impI notI)
      fix k' s' assume k': "k' \<in> set ks" and "m k' = Some s'" and "P s'"
      then have "k' = k" using Cons.prems(5) [of k' s'] by simp
      with k' notin show False by simp
    qed
    then have "filter P (rangeFeeds m ks) = []" by (rule filter_rangeFeeds_none)
    with True Cons.prems(3,4) show ?thesis by simp
  next
    case False
    with Cons.prems(2) have kin: "k \<in> set ks" by simp
    from Cons.prems(1) have d: "distinct ks" by simp
    have "filter P (rangeFeeds m ks) = [s]"
    proof (rule Cons.IH [OF d kin Cons.prems(3,4)])
      fix k' s' assume "k' \<in> set ks" and "m k' = Some s'" and "P s'"
      then show "k' = k" using Cons.prems(5) [of k' s'] by simp
    qed
    moreover have "\<And>s'. m a = Some s' \<Longrightarrow> \<not> P s'"
    proof
      fix s' assume "m a = Some s'" and "P s'"
      then have "a = k" using Cons.prems(5) [of a s'] by simp
      with False show False by simp
    qed
    ultimately show ?thesis by (cases "m a") simp_all
  qed
qed

lemma count_list_map_filter:
  "count_list (map f xs) t = length (filter (\<lambda>x. f x = t) xs)"
  by (induction xs) simp_all

lemma addSources_feed: "feed (addSources ss w) = feed w"
  by (induction ss arbitrary: w) simp_all

lemma addSources_requests: "requests (addSources ss w) = requests w"
  by (induction ss arbitrary: w) simp_all

lemma addSources_provider:
  "provider (addSources ss w) =
     provider w @ map SourceTitle (filter (\<lambda>s. SourceTitle s \<noteq> '''') ss)"
  by (induction ss arbitrary: w) simp_all

lemma startsWith_prefix: "startsWith w s = prefix w s"
proof
  assume "startsWith w s"
  then have "take (length w) s = w" by (simp add: startsWith_def)
  then show "prefix w s" by (metis take_is_prefix)
next
  assume "prefix w s"
  then show "startsWith w s" by (auto simp: startsWith_def prefix_def)
qed

lemma stripRunes_decomp: "\<exists>ls. set ls \<subseteq> set ws \<and> s = concat ls @ stripRunes ws s"
proof (induction ws s rule: stripRunes.induct)
  case (1 ws)
  have "set [] \<subseteq> set ws \<and> [] = concat [] @ stripRunes ws []" by simp
  then show ?case by blast
next
  case (2 ws c cs)
  show ?case
  proof (cases "find (\<lambda>w. w \<noteq> [] \<and> startsWith w (c # cs)) ws")
    case None
    then have "set [] \<subseteq> set ws \<and> c # cs = concat [] @ stripRunes ws (c # cs)" by simp
    then show ?thesis by blast
  next
    case (Some w)
    then have w: "w \<in> set ws" "w \<noteq> []" "startsWith w (c # cs)"
      by (auto simp: find_Some_iff)
    from w(3) have "c # cs = w @ drop (length w) (c # cs)"
      by (metis append_take_drop_id startsWith_def)
    moreover from w(2) have "drop (length w) (c # cs) = drop (length w - 1) cs"
      by (cases w) simp_all
    ultimately have split: "c # cs = w @ drop (length w - 1) cs" by simp
    from "2.IH" [OF Some] obtain ls where
      ls: "set ls \<subseteq> set ws" "drop (length w - 1) cs = concat ls @ stripRunes ws (drop (length w - 1) cs)"
      by blast
    from Some have r: "stripRunes ws (c # cs) = stripRunes ws (drop (length w - 1) cs)" by simp
    have "set (w # ls) \<subseteq> set ws \<and> c # cs = concat (w # ls) @ stripRunes ws (c # cs)"
      using w(1) ls(1) split ls(2) unfolding r by simp
    then show ?thesis by blast
  qed
qed

lemma stripRunes_no_prefix:
  "w \<in> set ws \<Longrightarrow> w \<noteq> [] \<Longrightarrow> \<not> prefix w (stripRunes ws s)"
proof (induction ws s rule: stripRunes.induct)
  case (1 ws)
  then show ?case by simp
next
  case (2 ws c cs)
  show ?case
  proof (cases "find (\<lambda>w. w \<noteq> [] \<and> startsWith w (c # cs)) ws")
    case None
    with "2.prems" have "\<not> startsWith w (c # cs)"
      by (auto simp: find_None_iff)
    with None show ?thesis by (simp add: startsWith_prefix)
  next
    case (Some w')
    with "2.IH" [OF Some "2.prems"] show ?thesis by simp
  qed
qed

lemma spaceRunes_nonempty: "w \<in> set spaceRunes \<Longrightarrow> w \<noteq> []"
  by (auto simp: spaceRunes_def)

lemma TrimSpace_decomp:
  "\<exists>ls rs. set ls \<subseteq> set spaceRunes \<and> set rs \<subseteq> set spaceRunes
     \<and> s = concat ls @ TrimSpace s @ concat rs"
proof -
  obtain ls where ls: "set ls \<subseteq> set spaceRunes" "s = concat ls @ TrimLeft s"
    unfolding TrimLeft_def using stripRunes_decomp [of spaceRunes s] by blast
  obtain rs where rs: "set rs \<subseteq> set (map rev spaceRunes)"
    "rev (TrimLeft s) = concat rs @ stripRunes (map rev spaceRunes) (rev (TrimLeft s))"
    using stripRunes_decomp [of "map rev spaceRunes" "rev (TrimLeft s)"] by blast
  from rs(2) have "rev (rev (TrimLeft s)) =
      rev (concat rs @ stripRunes (map rev spaceRunes) (rev (TrimLeft s)))" by simp
  then have "TrimLeft s = TrimSpace s @ concat (map rev (rev rs))"
    by (simp add: TrimSpace_def TrimRight_def rev_concat)
  moreover from rs(1) have "set (map rev (rev rs)) \<subseteq> set spaceRunes"
    by auto
  ultimately have "set ls \<subseteq> set spaceRunes \<and> set (map rev (rev rs)) \<subseteq> set spaceRunes
     \<and> s = concat ls @ TrimSpace s @ concat (map rev (rev rs))"
    using ls by simp
  then show ?thesis by blast
qed

lemma TrimSpace_no_space:
  assumes "w \<in> set spaceRunes"
  shows "\<not> prefix w (TrimSpace s) \<and> \<not> suffix w (TrimSpace s)"
proof
  from assms have ne: "w \<noteq> []" by (rule spaceRunes_nonempty)
  have "prefix (TrimSpace s) (TrimLeft s)"
  proof -
    have "suffix (stripRunes (map rev spaceRunes) (rev (TrimLeft s))) (rev (TrimLeft s))"
      using stripRunes_decomp [of "map rev spaceRunes" "rev (TrimLeft s)"]
      by (metis suffixI)
    then show ?thesis
      by (simp add: TrimSpace_def TrimRight_def suffix_to_prefix)
  qed
  moreover have "\<not> prefix w (TrimLeft s)"
    unfolding TrimLeft_def using assms ne by (rule stripRunes_no_prefix)
  ultimately show "\<not> prefix w (TrimSpace s)"
    using prefix_order.trans by blast
  have "rev w \<in> set (map rev spaceRunes)" "rev w \<noteq> []"
    using assms ne by simp_all
  then have "\<not> prefix (rev w) (stripRunes (map rev spaceRunes) (rev (TrimLeft s)))"
    by (rule stripRunes_no_prefix)
  then show "\<not> suffix w (TrimSpace s)"
    by (simp add: TrimSpace_def TrimRight_def suffix_to_prefix)
qed

lemma describe_string:
  "Meta entry ''description'' = Some (JString s) \<Longrightarrow>
   describe entry = Inr (entry\<lparr>Description := take 150 (TrimSpace s)\<rparr>)"
  by (simp add: describe_def trimmedDescription_def shorten_def min_def)

lemma describe_succeeds:
  "(\<exists>e'. describe e = Inr e') =
     (Meta e ''description'' = None \<or> Meta e ''description'' = Some JNull
      \<or> (\<exists>s. Meta e ''description'' = Some (JString s)))"
proof (cases "Meta e ''description''")
  case None
  then show ?thesis by (simp add: describe_def trimmedDescription_def)
next
  case (Some v)
  then show ?thesis by (cases v) (simp_all add: describe_def trimmedDescription_def)
qed

lemma length_describeEntries: "length (snd (describeEntries es)) = length es"
  by (induction es) (auto split: sum.splits prod.splits)

lemma describeEntries_nth:
  "i < length es \<Longrightarrow> fst (describeEntries (take (Suc i) es)) = None \<Longrightarrow>
   describe (es ! i) = Inr (snd (describeEntries es) ! i)"
proof (induction es arbitrary: i)
  case Nil
  then show ?case by simp
next
  case (Cons e es)
  then show ?case
    by (cases i) (auto split: sum.splits prod.splits)
qed

lemma describeEntries_ok:
  "fst (describeEntries es) = None \<longleftrightarrow> (\<forall>e\<in>set es. \<exists>e'. describe e = Inr e')"
  by (induction es) (auto split: sum.splits prod.splits)

lemma appendEntries_fault:
  "fst (appendEntries es t is items) = None \<longleftrightarrow> (\<forall>i\<in>set is. 0 \<le> i \<and> i < int (length es))"
  by (induction "is" arbitrary: items) auto

lemma appendEntries_fault_kind:
  "fst (appendEntries es t is items) = Some flt \<Longrightarrow>
   \<exists>i. flt = IndexOutOfRange i (length es) \<and> \<not> (0 \<le> i \<and> i < int (length es))"
  by (induction "is" arbitrary: items) (auto split: if_splits)

lemma appendEntries_items:
  "fst (appendEntries es t is items) = None \<Longrightarrow>
   snd (appendEntries es t is items) k =
     (if k = t \<and> is \<noteq> [] then Some (itemsAt items k @ map (\<lambda>i. es ! nat i) is) else items k)"
  by (induction "is" arbitrary: items) (auto simp: itemsAt_def split: if_splits)

lemma groupSources_fault:
  "fst (groupSources es ss items) = None \<longleftrightarrow>
     (\<forall>s\<in>set ss. \<forall>i\<in>set (SourceEntries s). 0 \<le> i \<and> i < int (length es))"
proof (induction ss arbitrary: items)
  case Nil
  then show ?case by simp
next
  case (Cons s ss)
  show ?case
  proof (cases "appendEntries es (SourceTitle s) (SourceEntries s) items")
    case (Pair r items')
    with appendEntries_fault [of es "SourceTitle s" "SourceEntries s" items] Cons.IH [of items']
    show ?thesis by (cases r) auto
  qed
qed

lemma groupSources_fault_kind:
  "fst (groupSources es ss items) = Some flt \<Longrightarrow>
   \<exists>i. flt = IndexOutOfRange i (length es) \<and> \<not> (0 \<le> i \<and> i < int (length es))"
proof (induction ss arbitrary: items)
  case Nil
  then show ?case by simp
next
  case (Cons s ss)
  obtain r items' where a: "appendEntries es (SourceTitle s) (SourceEntries s) items = (r, items')"
    by (cases "appendEntries es (SourceTitle s) (SourceEntries s) items")
  show ?case
  proof (cases r)
    case None
    with a Cons.prems have "fst (groupSources es ss items') = Some flt" by simp
    then show ?thesis by (rule Cons.IH)
  next
    case (Some flt')
    with a Cons.prems have "fst (appendEntries es (SourceTitle s) (SourceEntries s) items) = Some flt"
      by simp
    then show ?thesis by (rule appendEntries_fault_kind)
  qed
qed

lemma groupSources_items:
  "fst (groupSources es ss items) = None \<Longrightarrow>
   snd (groupSources es ss items) k =
     (if picked es ss k = [] then items k else Some (itemsAt items k @ picked es ss k))"
proof (induction ss arbitrary: items)
  case Nil
  then show ?case by (simp add: picked_def)
next
  case (Cons s ss)
  obtain r items' where a: "appendEntries es (SourceTitle s) (SourceEntries s) items = (r, items')"
    by (cases "appendEntries es (SourceTitle s) (SourceEntries s) items")
  with Cons.prems have r: "r = None" and g: "fst (groupSources es ss items') = None"
    by (cases r; simp)+
  from a r have "fst (appendEntries es (SourceTitle s) (SourceEntries s) items) = None" by simp
  from appendEntries_items [OF this, of k] a
  have i': "items' k = (if k = SourceTitle s \<and> SourceEntries s \<noteq> []
        then Some (itemsAt items k @ map (\<lambda>i. es ! nat i) (SourceEntries s)) else items k)"
    by simp
  from a r have "snd (groupSources es (s # ss) items) k = snd (groupSources es ss items') k"
    by simp
  also have "\<dots> = (if picked es ss k = [] then items' k else Some (itemsAt items' k @ picked es ss k))"
    by (rule Cons.IH [OF g])
  also have "\<dots> = (if picked es (s # ss) k = [] then items k
                    else Some (itemsAt items k @ picked es (s # ss) k))"
    using i' by (auto simp: picked_def itemsAt_def)
  finally show ?case .
qed

subsection \<open>processFeed, field by field\<close>

lemma processFeed_requests: "requests (snd (processFeed order1 order2 w)) = requests w"
  by (simp add: processFeed_def Let_def addSources_requests split: prod.splits option.splits)

lemma processFeed_provider:
  "provider (snd (processFeed order1 order2 w)) =
     provider w @ map SourceTitle
       (filter (\<lambda>s. SourceTitle s \<noteq> '''') (rangeFeeds (Feeds (feed w)) order1))"
  by (simp add: processFeed_def Let_def addSources_provider split: prod.splits option.splits)

lemma processFeed_Entries:
  "Entries (feed (snd (processFeed order1 order2 w))) = snd (describeEntries (Entries (feed w)))"
  by (simp add: processFeed_def Let_def split: prod.splits option.splits)

lemma processFeed_fault:
  "fst (processFeed order1 order2 w) =
     (case fst (describeEntries (Entries (feed w))) of
        Some flt \<Rightarrow> Some flt
      | None \<Rightarrow>
          fst (groupSources (snd (describeEntries (Entries (feed w))))
                 (rangeFeeds (Feeds (feed w)) order2)
                 [''all'' \<mapsto> snd (describeEntries (Entries (feed w)))]))"
  by (simp add: processFeed_def Let_def split: prod.splits option.splits)

lemma processFeed_Items:
  "fst (describeEntries (Entries (feed w))) = None \<Longrightarrow>
   Items (feed (snd (processFeed order1 order2 w))) =
     snd (groupSources (snd (describeEntries (Entries (feed w))))
            (rangeFeeds (Feeds (feed w)) order2)
            [''all'' \<mapsto> snd (describeEntries (Entries (feed w)))])"
  by (auto simp add: processFeed_def Let_def split: prod.splits option.splits)

lemma processFeed_grouped:
  assumes "processFeed order1 order2 w = (None, w')"
  shows "Items (feed w') k =
           (if picked (Entries (feed w')) (rangeFeeds (Feeds (feed w)) order2) k = []
            then [''all'' \<mapsto> Entries (feed w')] k
            else Some (itemsAt [''all'' \<mapsto> Entries (feed w')] k
                       @ picked (Entries (feed w')) (rangeFeeds (Feeds (feed w)) order2) k))"
proof -
  let ?es = "snd (describeEntries (Entries (feed w)))"
  let ?g = "groupSources ?es (rangeFeeds (Feeds (feed w)) order2) [''all'' \<mapsto> ?es]"
  from assms have w': "w' = snd (processFeed order1 order2 w)"
    and ok: "fst (processFeed order1 order2 w) = None" by simp_all
  from ok have d: "fst (describeEntries (Entries (feed w))) = None"
    by (simp add: processFeed_fault split: option.splits)
  with ok have g: "fst ?g = None"
    by (simp add: processFeed_fault)
  have es: "Entries (feed w') = ?es"
    unfolding w' by (rule processFeed_Entries)
  have "Items (feed w') = snd ?g"
    unfolding w' using d by (rule processFeed_Items)
  then show ?thesis
    unfolding es using groupSources_items [OF g, of k] by simp
qed

lemma processFeed_itemsAt:
  assumes "processFeed order1 order2 w = (None, w')"
  shows "itemsAt (Items (feed w')) k =
           (if k = ''all'' then Entries (feed w') else [])
           @ picked (Entries (feed w')) (rangeFeeds (Feeds (feed w)) order2) k"
  unfolding itemsAt_def processFeed_grouped [OF assms] by simp

subsection \<open>GetFeed, path by path\<close>

lemma supported_iff: "supported l \<longleftrightarrow> l \<in> {''en_US'', ''fa_IR'', ''fa'', ''zh_CN''}"
  by (simp add: supported_def supportedLocales_def)

lemma Sprintf_feedEndpoint:
  "Sprintf feedEndpoint [l] = ''https://feeds.getiantem.org/'' @ l @ ''/feed.json''"
  by (simp add: feedEndpoint_def)

lemma GetFeed_requests:
  "requests (snd (GetFeed e order1 order2 locale proxyAddr w)) =
     requests w @ [(''GET'', feedUrlOf locale)]"
  unfolding GetFeed_def Let_def feedUrlOf_def [symmetric]
  by (simp add: processFeed_requests split: option.splits sum.splits)

lemma GetFeed_request_failed:
  "NewRequest e ''GET'' (feedUrlOf locale) = Some er \<Longrightarrow>
   GetFeed e order1 order2 locale proxyAddr w =
     (None, w\<lparr>requests := requests w @ [(''GET'', feedUrlOf locale)],
              logged := logged w @ [Errorf ''Error fetching feed: %v'' (ArgErr er)]\<rparr>)"
  unfolding GetFeed_def Let_def feedUrlOf_def [symmetric] by simp

lemma GetFeed_client_failed:
  "NewRequest e ''GET'' (feedUrlOf locale) = None \<Longrightarrow> clientFor e proxyAddr = Inl er \<Longrightarrow>
   GetFeed e order1 order2 locale proxyAddr w =
     (None, w\<lparr>requests := requests w @ [(''GET'', feedUrlOf locale)], httpClient := None,
              logged := logged w @ [Errorf ''Error creating client: %v'' (ArgErr er)]\<rparr>)"
  unfolding GetFeed_def Let_def feedUrlOf_def [symmetric] clientFor_def by simp

lemma GetFeed_do_failed:
  "NewRequest e ''GET'' (feedUrlOf locale) = None \<Longrightarrow> clientFor e proxyAddr = Inr c \<Longrightarrow>
   Do e c (''GET'', feedUrlOf locale) = Inl er \<Longrightarrow>
   GetFeed e order1 order2 locale proxyAddr w =
     (None, w\<lparr>requests := requests w @ [(''GET'', feedUrlOf locale)], httpClient := Some c,
              logged := logged w @ [Errorf ''Error fetching feed: %v'' (ArgErr er)]\<rparr>)"
  unfolding GetFeed_def Let_def feedUrlOf_def [symmetric] clientFor_def by simp

lemma GetFeed_read_failed:
  "NewRequest e ''GET'' (feedUrlOf locale) = None \<Longrightarrow> clientFor e proxyAddr = Inr c \<Longrightarrow>
   Do e c (''GET'', feedUrlOf locale) = Inr res \<Longrightarrow> ReadAll e res = Inl er \<Longrightarrow>
   GetFeed e order1 order2 locale proxyAddr w =
     (None, w\<lparr>requests := requests w @ [(''GET'', feedUrlOf locale)], httpClient := Some c,
              logged := logged w @ [Errorf ''Error reading body: %v'' (ArgErr er)]\<rparr>)"
  unfolding GetFeed_def Let_def feedUrlOf_def [symmetric] clientFor_def by simp

lemma GetFeed_fetched:
  "NewRequest e ''GET'' (feedUrlOf locale) = None \<Longrightarrow> clientFor e proxyAddr = Inr c \<Longrightarrow>
   Do e c (''GET'', feedUrlOf locale) = Inr res \<Longrightarrow> ReadAll e res = Inr contents \<Longrightarrow>
   GetFeed e order1 order2 locale proxyAddr w =
     processFeed order1 order2
       (w\<lparr>requests := requests w @ [(''GET'', feedUrlOf locale)], httpClient := Some c,
          feed := snd (Unmarshal e contents (feed w))\<rparr>)"
  unfolding GetFeed_def Let_def feedUrlOf_def [symmetric] clientFor_def by simp

subsection \<open>FeedByName\<close>

text \<open>
  C4: \<^verbatim>\<open>FeedByName\<close> sends the retriever one \<^verbatim>\<open>AddFeed\<close> for every entry stored under the
  name, in the stored order, with the title, the derived description, the image and the
  link of that entry, and then \<^verbatim>\<open>Finish\<close>, once, as the last call. A name that is not
  in \<^verbatim>\<open>Items\<close> (so any name, before a feed was fetched) gives \<^verbatim>\<open>Finish\<close> alone. The
  function has no failing branch.
\<close>

theorem FeedByName_calls:
  "FeedByName name retriever w =
     retriever
     @ map (\<lambda>i. AddFeed (Title i) (Description i) (Image i) (Link i))
         (itemsAt (Items (feed w)) name)
     @ [Finish]
   \<and> (Items (feed w) name = None \<longrightarrow> FeedByName name retriever w = retriever @ [Finish])"
  by (simp add: FeedByName_def itemsAt_def addFeeds_append split: option.splits)

theorem FeedByName_calls_witness:
  "FeedByName ''X'' [] (snd (processFeed [''X''] [''X''] (worldOf feedX))) =
     [AddFeed ''A'' ''hello world'' ''a.png'' ''http://a'',
      AddFeed ''C'' (CHR ''c'' # replicate 149 (CHR ''.'')) ''c.png'' ''http://c'',
      Finish]
   \<and> Items (feed (snd (processFeed [''X''] [''X''] (worldOf feedX)))) ''nonexistent'' = None
   \<and> FeedByName ''nonexistent'' [] (snd (processFeed [''X''] [''X''] (worldOf feedX))) = [Finish]
   \<and> Items (feed (worldOf (feedOf Map.empty []))) ''all'' = None
   \<and> FeedByName ''all'' [] (worldOf (feedOf Map.empty [])) = [Finish]"
  using FeedByName_calls [of "''X''" "[]" "snd (processFeed [''X''] [''X''] (worldOf feedX))"]
    FeedByName_calls [of "''nonexistent''" "[]" "snd (processFeed [''X''] [''X''] (worldOf feedX))"]
    FeedByName_calls [of "''all''" "[]" "worldOf (feedOf Map.empty [])"]
  by (simp add: example_defs run_defs)

subsection \<open>The request of GetFeed\<close>

text \<open>
  C3: the one request \<^verbatim>\<open>GetFeed\<close> builds is a GET of the endpoint template with the
  locale put in, when the locale is one of en_US, fa_IR, fa and zh_CN, and with en_US put
  in otherwise.
\<close>

theorem GetFeed_request_url:
  "requests (snd (GetFeed e order1 order2 locale proxyAddr w)) =
     requests w @
       [(''GET'',
         ''https://feeds.getiantem.org/''
         @ (if locale \<in> {''en_US'', ''fa_IR'', ''fa'', ''zh_CN''} then locale else ''en_US'')
         @ ''/feed.json'')]"
proof -
  have "feedUrlOf locale =
          ''https://feeds.getiantem.org/''
          @ (if locale \<in> {''en_US'', ''fa_IR'', ''fa'', ''zh_CN''} then locale else ''en_US'')
          @ ''/feed.json''"
    unfolding feedUrlOf_def Sprintf_feedEndpoint supported_iff by simp
  then show ?thesis
    by (simp only: GetFeed_requests)
qed

theorem GetFeed_request_url_witness:
  "requests (snd (GetFeed (envOf (Some ''down'') (Inr ()) (Inr ()) (Inr []) (None, feedX))
                    [] [] ''fr_FR'' [] (worldOf feedX))) =
     [(''GET'', ''https://feeds.getiantem.org/en_US/feed.json'')]
   \<and> requests (snd (GetFeed (envOf (Some ''down'') (Inr ()) (Inr ()) (Inr []) (None, feedX))
                    [] [] ''fa'' [] (worldOf feedX))) =
     [(''GET'', ''https://feeds.getiantem.org/fa/feed.json'')]"
  using GetFeed_request_url [of "envOf (Some ''down'') (Inr ()) (Inr ()) (Inr []) (None, feedX)"
      "[]" "[]" "''fr_FR''" "[]" "worldOf feedX"]
    GetFeed_request_url [of "envOf (Some ''down'') (Inr ()) (Inr ()) (Inr []) (None, feedX)"
      "[]" "[]" "''fa''" "[]" "worldOf feedX"]
  by (simp add: worldOf_def)

subsection \<open>Failures of GetFeed\<close>

text \<open>
  C5: when \<^verbatim>\<open>GetFeed\<close> fails to build the request, or to build the client, or to perform
  the request, or to read the body, it returns with \<^verbatim>\<open>feed\<close> as it was and without a call
  of \<^verbatim>\<open>provider.AddSource\<close>.
\<close>

theorem GetFeed_abort:
  assumes "NewRequest e ''GET'' (feedUrlOf locale) = Some er
     \<or> (NewRequest e ''GET'' (feedUrlOf locale) = None \<and> clientFor e proxyAddr = Inl er)
     \<or> (NewRequest e ''GET'' (feedUrlOf locale) = None \<and> clientFor e proxyAddr = Inr c
         \<and> Do e c (''GET'', feedUrlOf locale) = Inl er)
     \<or> (NewRequest e ''GET'' (feedUrlOf locale) = None \<and> clientFor e proxyAddr = Inr c
         \<and> Do e c (''GET'', feedUrlOf locale) = Inr res \<and> ReadAll e res = Inl er)"
  shows "fst (GetFeed e order1 order2 locale proxyAddr w) = None
    \<and> feed (snd (GetFeed e order1 order2 locale proxyAddr w)) = feed w
    \<and> provider (snd (GetFeed e order1 order2 locale proxyAddr w)) = provider w"
  using assms
proof (elim disjE conjE)
  assume "NewRequest e ''GET'' (feedUrlOf locale) = Some er"
  then show ?thesis by (simp add: GetFeed_request_failed)
next
  assume "NewRequest e ''GET'' (feedUrlOf locale) = None" "clientFor e proxyAddr = Inl er"
  then show ?thesis by (simp add: GetFeed_client_failed)
next
  assume "NewRequest e ''GET'' (feedUrlOf locale) = None" "clientFor e proxyAddr = Inr c"
    "Do e c (''GET'', feedUrlOf locale) = Inl er"
  then show ?thesis by (simp add: GetFeed_do_failed)
next
  assume "NewRequest e ''GET'' (feedUrlOf locale) = None" "clientFor e proxyAddr = Inr c"
    "Do e c (''GET'', feedUrlOf locale) = Inr res" "ReadAll e res = Inl er"
  then show ?thesis by (simp add: GetFeed_read_failed)
qed

theorem GetFeed_abort_witness:
  "feed (snd (GetFeed (envOf (Some ''bad url'') (Inr ()) (Inr ()) (Inr []) (None, feedTwin))
                [''a'', ''b''] [''a'', ''b''] ''fa'' [] (worldOf feedX))) = feedX
   \<and> provider (snd (GetFeed (envOf (Some ''bad url'') (Inr ()) (Inr ()) (Inr []) (None, feedTwin))
                [''a'', ''b''] [''a'', ''b''] ''fa'' [] (worldOf feedX))) = []
   \<and> feed (snd (GetFeed (envOf None (Inl ''no proxy'') (Inr ()) (Inr []) (None, feedTwin))
                [''a'', ''b''] [''a'', ''b''] ''fa'' ''127.0.0.1:8787'' (worldOf feedX))) = feedX
   \<and> provider (snd (GetFeed (envOf None (Inl ''no proxy'') (Inr ()) (Inr []) (None, feedTwin))
                [''a'', ''b''] [''a'', ''b''] ''fa'' ''127.0.0.1:8787'' (worldOf feedX))) = []
   \<and> feed (snd (GetFeed (envOf None (Inr ()) (Inl ''timeout'') (Inr []) (None, feedTwin))
                [''a'', ''b''] [''a'', ''b''] ''fa'' [] (worldOf feedX))) = feedX
   \<and> provider (snd (GetFeed (envOf None (Inr ()) (Inl ''timeout'') (Inr []) (None, feedTwin))
                [''a'', ''b''] [''a'', ''b''] ''fa'' [] (worldOf feedX))) = []
   \<and> feed (snd (GetFeed (envOf None (Inr ()) (Inr ()) (Inl ''reset'') (None, feedTwin))
                [''a'', ''b''] [''a'', ''b''] ''fa'' [] (worldOf feedX))) = feedX
   \<and> provider (snd (GetFeed (envOf None (Inr ()) (Inr ()) (Inl ''reset'') (None, feedTwin))
                [''a'', ''b''] [''a'', ''b''] ''fa'' [] (worldOf feedX))) = []"
  using
    GetFeed_abort [of "envOf (Some ''bad url'') (Inr ()) (Inr ()) (Inr []) (None, feedTwin)"
      "''fa''" "''bad url''" "[]" "()" "()" "[''a'', ''b'']" "[''a'', ''b'']" "worldOf feedX"]
    GetFeed_abort [of "envOf None (Inl ''no proxy'') (Inr ()) (Inr []) (None, feedTwin)"
      "''fa''" "''no proxy''" "''127.0.0.1:8787''" "()" "()" "[''a'', ''b'']" "[''a'', ''b'']" "worldOf feedX"]
    GetFeed_abort [of "envOf None (Inr ()) (Inl ''timeout'') (Inr []) (None, feedTwin)"
      "''fa''" "''timeout''" "[]" "()" "()" "[''a'', ''b'']" "[''a'', ''b'']" "worldOf feedX"]
    GetFeed_abort [of "envOf None (Inr ()) (Inr ()) (Inl ''reset'') (None, feedTwin)"
      "''fa''" "''reset''" "[]" "()" "()" "[''a'', ''b'']" "[''a'', ''b'']" "worldOf feedX"]
  by (simp add: envOf_def clientFor_def worldOf_def)

text \<open>
  C6: once the body is read, the error of \<^verbatim>\<open>json.Unmarshal\<close> is not looked at:
  whether the decoder answers an error or not, \<^verbatim>\<open>GetFeed\<close> runs \<^verbatim>\<open>processFeed\<close> on the feed
  as the decoder left it, and the provider is sent the non-empty titles of its sources.
\<close>

theorem GetFeed_decode_error_ignored:
  assumes "NewRequest e ''GET'' (feedUrlOf locale) = None"
    and "clientFor e proxyAddr = Inr c"
    and "Do e c (''GET'', feedUrlOf locale) = Inr res"
    and "ReadAll e res = Inr contents"
    and "Unmarshal e contents (feed w) = (derr, f)"
  shows "GetFeed e order1 order2 locale proxyAddr w =
           processFeed order1 order2
             (w\<lparr>requests := requests w @ [(''GET'', feedUrlOf locale)], httpClient := Some c,
                feed := f\<rparr>)
    \<and> provider (snd (GetFeed e order1 order2 locale proxyAddr w)) =
        provider w @ map SourceTitle
          (filter (\<lambda>s. SourceTitle s \<noteq> '''') (rangeFeeds (Feeds f) order1))"
proof -
  have g: "GetFeed e order1 order2 locale proxyAddr w =
           processFeed order1 order2
             (w\<lparr>requests := requests w @ [(''GET'', feedUrlOf locale)], httpClient := Some c,
                feed := f\<rparr>)"
    using GetFeed_fetched [OF assms(1-4)] assms(5) by simp
  show ?thesis
    unfolding g by (simp add: processFeed_provider)
qed

theorem GetFeed_decode_error_ignored_witness:
  "fst (GetFeed (envOf None (Inr ()) (Inr ()) (Inr ''{'') (Some ''unexpected end of JSON input'', feedX))
          [''X''] [''X''] ''en_US'' [] (worldOf feedX)) = None
   \<and> provider (snd (GetFeed (envOf None (Inr ()) (Inr ()) (Inr ''{'') (Some ''unexpected end of JSON input'', feedX))
          [''X''] [''X''] ''en_US'' [] (worldOf feedX))) = [''X'']"
proof -
  let ?e = "envOf None (Inr ()) (Inr ()) (Inr ''{'') (Some ''unexpected end of JSON input'', feedX)"
  have h1: "NewRequest ?e ''GET'' (feedUrlOf ''en_US'') = None"
    and h2: "clientFor ?e [] = Inr ()"
    and h3: "Do ?e () (''GET'', feedUrlOf ''en_US'') = Inr ()"
    and h4: "ReadAll ?e () = Inr ''{''"
    and h5: "Unmarshal ?e ''{'' (feed (worldOf feedX)) = (Some ''unexpected end of JSON input'', feedX)"
    by (simp_all add: envOf_def clientFor_def)
  note g = GetFeed_decode_error_ignored [OF h1 h2 h3 h4 h5, of "[''X'']" "[''X'']"]
  have p: "fst (processFeed [''X''] [''X'']
      ((worldOf feedX)\<lparr>requests := requests (worldOf feedX) @ [(''GET'', feedUrlOf ''en_US'')],
         httpClient := Some (), feed := feedX\<rparr>)) = None"
    by (simp add: example_defs run_defs)
  have q: "provider (worldOf feedX) @ map SourceTitle
          (filter (\<lambda>s. SourceTitle s \<noteq> '''') (rangeFeeds (Feeds feedX) [''X''])) = [''X'']"
    by (simp add: example_defs)
  have a: "fst (GetFeed ?e [''X''] [''X''] ''en_US'' [] (worldOf feedX)) = None"
    unfolding g [THEN conjunct1] by (rule p)
  have b: "provider (snd (GetFeed ?e [''X''] [''X''] ''en_US'' [] (worldOf feedX))) = [''X'']"
    unfolding g [THEN conjunct2] by (rule q)
  from a b show ?thesis by (rule conjI)
qed

subsection \<open>The sources sent to the provider\<close>

text \<open>
  C7, amended: \<^verbatim>\<open>processFeed\<close> calls \<^verbatim>\<open>provider.AddSource\<close> once for every source whose title
  is not empty, with that title, in the order of the loop, and never with the empty
  title. A title is therefore sent once for each source that carries it: exactly once
  when it is the title of one source only.
\<close>

theorem processFeed_AddSource:
  "provider (snd (processFeed order1 order2 w)) =
     provider w @ map SourceTitle
       (filter (\<lambda>s. SourceTitle s \<noteq> '''') (rangeFeeds (Feeds (feed w)) order1))
   \<and> '''' \<notin> set (drop (length (provider w)) (provider (snd (processFeed order1 order2 w))))
   \<and> (iteration (Feeds (feed w)) order1 \<and> Feeds (feed w) k = Some s \<and> SourceTitle s \<noteq> ''''
        \<and> (\<forall>k' s'. Feeds (feed w) k' = Some s' \<and> SourceTitle s' = SourceTitle s \<longrightarrow> k' = k)
      \<longrightarrow> count_list (drop (length (provider w)) (provider (snd (processFeed order1 order2 w))))
            (SourceTitle s) = 1)"
proof (intro conjI impI)
  let ?new = "drop (length (provider w)) (provider (snd (processFeed order1 order2 w)))"
  let ?ss = "rangeFeeds (Feeds (feed w)) order1"
  show "provider (snd (processFeed order1 order2 w)) =
          provider w @ map SourceTitle (filter (\<lambda>s. SourceTitle s \<noteq> '''') ?ss)"
    by (rule processFeed_provider)
  have new: "?new = map SourceTitle (filter (\<lambda>s. SourceTitle s \<noteq> '''') ?ss)"
    by (simp add: processFeed_provider)
  show "'''' \<notin> set ?new"
    unfolding new by auto
  assume a: "iteration (Feeds (feed w)) order1 \<and> Feeds (feed w) k = Some s \<and> SourceTitle s \<noteq> ''''
        \<and> (\<forall>k' s'. Feeds (feed w) k' = Some s' \<and> SourceTitle s' = SourceTitle s \<longrightarrow> k' = k)"
  then have d: "distinct order1" and kin: "k \<in> set order1"
    by (auto simp: iteration_def)
  have "filter (\<lambda>x. SourceTitle x = SourceTitle s) ?ss = [s]"
  proof (rule filter_rangeFeeds_one [OF d kin])
    show "Feeds (feed w) k = Some s" using a by simp
    show "SourceTitle s = SourceTitle s" by simp
    fix k' s' assume "k' \<in> set order1" "Feeds (feed w) k' = Some s'" "SourceTitle s' = SourceTitle s"
    with a show "k' = k" by blast
  qed
  moreover have "filter (\<lambda>x. SourceTitle x = SourceTitle s) (filter (\<lambda>s. SourceTitle s \<noteq> '''') ?ss)
      = filter (\<lambda>x. SourceTitle x = SourceTitle s) ?ss"
    using a by (auto intro: filter_cong)
  ultimately show "count_list ?new (SourceTitle s) = 1"
    unfolding new count_list_map_filter by simp
qed

theorem processFeed_AddSource_counterexample:
  "count_list (provider (snd (processFeed [''a'', ''b''] [''a'', ''b''] (worldOf feedTwin)))) ''X'' = 2"
  by (simp add: example_defs run_defs)

theorem processFeed_AddSource_witness:
  "provider (snd (processFeed [''anon''] [''anon''] (worldOf feedAnon))) = []
   \<and> provider (snd (processFeed [''X''] [''X''] (worldOf feedX))) = [''X'']
   \<and> count_list (provider (snd (processFeed [''X''] [''X''] (worldOf feedX)))) ''X'' = 1"
  using processFeed_AddSource [of "[''anon'']" "[''anon'']" "worldOf feedAnon"]
    processFeed_AddSource [of "[''X'']" "[''X'']" "worldOf feedX" "''X''" "sourceOf ''X'' [0, 2]"]
  by (simp add: example_defs iteration_def)

subsection \<open>The derived description\<close>

text \<open>
  C2, amended: for an entry whose \<^verbatim>\<open>meta["description"]\<close> is a string, and before which
  every entry has a description that is absent, null or a string (so that the loop of
  lines 151 to 158 reaches it), \<^verbatim>\<open>processFeed\<close> sets \<^verbatim>\<open>Description\<close> to the first 150 bytes
  of the trimmed string. The trimmed string is what is left of the value once runs of
  white-space runes are taken from its front and from its back, and it neither begins
  nor ends with a white-space rune. The description is a prefix of the trimmed string
  of length at most 150, of length exactly 150 when the trimmed string is longer, and
  the trimmed string itself when it fits.
\<close>

theorem processFeed_Description:
  assumes "i < length (Entries (feed w))"
    and "\<forall>j<i. Meta (Entries (feed w) ! j) ''description'' = None
              \<or> Meta (Entries (feed w) ! j) ''description'' = Some JNull
              \<or> (\<exists>s'. Meta (Entries (feed w) ! j) ''description'' = Some (JString s'))"
    and "Meta (Entries (feed w) ! i) ''description'' = Some (JString s)"
  shows
    "let space =
           [[CHR 0x09], [CHR 0x0A], [CHR 0x0B], [CHR 0x0C], [CHR 0x0D], [CHR 0x20],
            [CHR 0xC2, CHR 0x85], [CHR 0xC2, CHR 0xA0], [CHR 0xE1, CHR 0x9A, CHR 0x80],
            [CHR 0xE2, CHR 0x80, CHR 0x80], [CHR 0xE2, CHR 0x80, CHR 0x81],
            [CHR 0xE2, CHR 0x80, CHR 0x82], [CHR 0xE2, CHR 0x80, CHR 0x83],
            [CHR 0xE2, CHR 0x80, CHR 0x84], [CHR 0xE2, CHR 0x80, CHR 0x85],
            [CHR 0xE2, CHR 0x80, CHR 0x86], [CHR 0xE2, CHR 0x80, CHR 0x87],
            [CHR 0xE2, CHR 0x80, CHR 0x88], [CHR 0xE2, CHR 0x80, CHR 0x89],
            [CHR 0xE2, CHR 0x80, CHR 0x8A], [CHR 0xE2, CHR 0x80, CHR 0xA8],
            [CHR 0xE2, CHR 0x80, CHR 0xA9], [CHR 0xE2, CHR 0x80, CHR 0xAF],
            [CHR 0xE2, CHR 0x81, CHR 0x9F], [CHR 0xE3, CHR 0x80, CHR 0x80]];
         d = Description (Entries (feed (snd (processFeed order1 order2 w))) ! i)
     in \<exists>ls t rs.
          set ls \<subseteq> set space \<and> set rs \<subseteq> set space \<and> s = concat ls @ t @ concat rs
          \<and> (\<forall>r\<in>set space. \<not> prefix r t \<and> \<not> suffix r t)
          \<and> t = TrimSpace s
          \<and> d = take 150 t \<and> length d \<le> 150 \<and> prefix d t
          \<and> (150 < length t \<longrightarrow> length d = 150)
          \<and> (length t \<le> 150 \<longrightarrow> d = t)"
proof -
  let ?es = "Entries (feed w)"
  let ?e = "Entries (feed (snd (processFeed order1 order2 w))) ! i"
  have table:
    "[[CHR 0x09], [CHR 0x0A], [CHR 0x0B], [CHR 0x0C], [CHR 0x0D], [CHR 0x20],
      [CHR 0xC2, CHR 0x85], [CHR 0xC2, CHR 0xA0], [CHR 0xE1, CHR 0x9A, CHR 0x80],
      [CHR 0xE2, CHR 0x80, CHR 0x80], [CHR 0xE2, CHR 0x80, CHR 0x81],
      [CHR 0xE2, CHR 0x80, CHR 0x82], [CHR 0xE2, CHR 0x80, CHR 0x83],
      [CHR 0xE2, CHR 0x80, CHR 0x84], [CHR 0xE2, CHR 0x80, CHR 0x85],
      [CHR 0xE2, CHR 0x80, CHR 0x86], [CHR 0xE2, CHR 0x80, CHR 0x87],
      [CHR 0xE2, CHR 0x80, CHR 0x88], [CHR 0xE2, CHR 0x80, CHR 0x89],
      [CHR 0xE2, CHR 0x80, CHR 0x8A], [CHR 0xE2, CHR 0x80, CHR 0xA8],
      [CHR 0xE2, CHR 0x80, CHR 0xA9], [CHR 0xE2, CHR 0x80, CHR 0xAF],
      [CHR 0xE2, CHR 0x81, CHR 0x9F], [CHR 0xE3, CHR 0x80, CHR 0x80]] = spaceRunes"
    by (simp add: spaceRunes_def)
  have "\<forall>e\<in>set (take (Suc i) ?es). \<exists>e'. describe e = Inr e'"
  proof
    fix e assume "e \<in> set (take (Suc i) ?es)"
    then obtain j where j: "j < Suc i" "j < length ?es" "e = ?es ! j"
      by (auto simp: in_set_conv_nth)
    show "\<exists>e'. describe e = Inr e'"
    proof (cases "j = i")
      case True
      with j(3) assms(3) show ?thesis by (simp add: describe_succeeds)
    next
      case False
      with j(1) have "j < i" by simp
      with assms(2) j(3) show ?thesis by (simp add: describe_succeeds)
    qed
  qed
  then have reach: "fst (describeEntries (take (Suc i) ?es)) = None"
    by (simp add: describeEntries_ok)
  have "describe (?es ! i) = Inr ?e"
    unfolding processFeed_Entries using assms(1) reach by (rule describeEntries_nth)
  with describe_string [OF assms(3)]
  have "?e = (?es ! i)\<lparr>Description := take 150 (TrimSpace s)\<rparr>" by simp
  then have d: "Description ?e = take 150 (TrimSpace s)" by simp
  obtain ls rs where parts: "set ls \<subseteq> set spaceRunes" "set rs \<subseteq> set spaceRunes"
    "s = concat ls @ TrimSpace s @ concat rs"
    using TrimSpace_decomp [of s] by blast
  have bare: "\<forall>r\<in>set spaceRunes. \<not> prefix r (TrimSpace s) \<and> \<not> suffix r (TrimSpace s)"
    using TrimSpace_no_space by blast
  have "set ls \<subseteq> set spaceRunes \<and> set rs \<subseteq> set spaceRunes
          \<and> s = concat ls @ TrimSpace s @ concat rs
          \<and> (\<forall>r\<in>set spaceRunes. \<not> prefix r (TrimSpace s) \<and> \<not> suffix r (TrimSpace s))
          \<and> TrimSpace s = TrimSpace s
          \<and> Description ?e = take 150 (TrimSpace s) \<and> length (Description ?e) \<le> 150
          \<and> prefix (Description ?e) (TrimSpace s)
          \<and> (150 < length (TrimSpace s) \<longrightarrow> length (Description ?e) = 150)
          \<and> (length (TrimSpace s) \<le> 150 \<longrightarrow> Description ?e = TrimSpace s)"
    using parts bare unfolding d by (simp add: take_is_prefix)
  then show ?thesis
    unfolding Let_def table by blast
qed

text \<open>
  Without the condition on the entries before it, the statement fails: behind an entry
  whose description is a number, an entry with a string description keeps the empty
  description, since the loop panics before it.
\<close>

theorem processFeed_Description_counterexample:
  "Meta (Entries (feed (worldOf feedBlocked)) ! 1) ''description'' = Some (JString ''  hello world  '')
   \<and> fst (processFeed [] [] (worldOf feedBlocked)) = Some (InterfaceConversion (JNumber 42))
   \<and> Description (Entries (feed (snd (processFeed [] [] (worldOf feedBlocked)))) ! 1) = ''''"
  by (simp add: example_defs feedBlocked_def run_defs)

theorem processFeed_Description_witness:
  "Description (Entries (feed (snd (processFeed [] [] (worldOf feedW)))) ! 1) = spacedText
   \<and> Description (Entries (feed (snd (processFeed [''X''] [''X''] (worldOf feedX)))) ! 0) = ''hello world''
   \<and> length (Description (Entries (feed (snd (processFeed [''X''] [''X''] (worldOf feedX)))) ! 2)) = 150"
proof -
  have eW: "Entries (feed (worldOf feedW)) = [itemB, itemW]"
    by (simp add: feedW_def feedOf_def worldOf_def)
  have eX: "Entries (feed (worldOf feedX)) = [itemA, itemB, itemC]"
    by (simp add: feedX_def feedOf_def worldOf_def)
  have tW: "TrimSpace (everySpace @ spacedText @ everySpace) = spacedText"
    by (simp add: everySpace_def spacedText_def TrimSpace_def TrimLeft_def TrimRight_def
        spaceRunes_def startsWith_def)
  have t0: "TrimSpace ''  hello world  '' = ''hello world''"
    by (simp add: run_defs)
  have t2: "TrimSpace ('' c'' @ replicate 200 (CHR ''.'') @ ''d  '') =
      ''c'' @ replicate 200 (CHR ''.'') @ ''d''"
    by (simp add: run_defs)
  have lW: "1 < length (Entries (feed (worldOf feedW)))"
    and l0: "0 < length (Entries (feed (worldOf feedX)))"
    and l2: "2 < length (Entries (feed (worldOf feedX)))"
    unfolding eW eX by simp_all
  have rW: "\<forall>j<1. Meta (Entries (feed (worldOf feedW)) ! j) ''description'' = None
              \<or> Meta (Entries (feed (worldOf feedW)) ! j) ''description'' = Some JNull
              \<or> (\<exists>s'. Meta (Entries (feed (worldOf feedW)) ! j) ''description'' = Some (JString s'))"
    unfolding eW by (simp add: itemB_def)
  have r0: "\<forall>j<0. Meta (Entries (feed (worldOf feedX)) ! j) ''description'' = None
              \<or> Meta (Entries (feed (worldOf feedX)) ! j) ''description'' = Some JNull
              \<or> (\<exists>s'. Meta (Entries (feed (worldOf feedX)) ! j) ''description'' = Some (JString s'))"
    by simp
  have r2: "\<forall>j<2. Meta (Entries (feed (worldOf feedX)) ! j) ''description'' = None
              \<or> Meta (Entries (feed (worldOf feedX)) ! j) ''description'' = Some JNull
              \<or> (\<exists>s'. Meta (Entries (feed (worldOf feedX)) ! j) ''description'' = Some (JString s'))"
    unfolding eX by (simp add: itemA_def itemB_def less_Suc_eq numeral_2_eq_2)
  have mW: "Meta (Entries (feed (worldOf feedW)) ! 1) ''description'' =
      Some (JString (everySpace @ spacedText @ everySpace))"
    unfolding eW by (simp add: itemW_def)
  have m0: "Meta (Entries (feed (worldOf feedX)) ! 0) ''description'' =
      Some (JString ''  hello world  '')"
    unfolding eX by (simp add: itemA_def)
  have m2: "Meta (Entries (feed (worldOf feedX)) ! 2) ''description'' =
      Some (JString ('' c'' @ replicate 200 (CHR ''.'') @ ''d  ''))"
    unfolding eX by (simp add: itemC_def)
  from processFeed_Description [OF lW rW mW, of "[]" "[]"]
  have "Description (Entries (feed (snd (processFeed [] [] (worldOf feedW)))) ! 1) =
      take 150 (TrimSpace (everySpace @ spacedText @ everySpace))"
    unfolding Let_def by blast
  then have a: "Description (Entries (feed (snd (processFeed [] [] (worldOf feedW)))) ! 1) = spacedText"
    unfolding tW by (simp add: spacedText_def)
  from processFeed_Description [OF l0 r0 m0, of "[''X'']" "[''X'']"]
  have "Description (Entries (feed (snd (processFeed [''X''] [''X''] (worldOf feedX)))) ! 0) =
      take 150 (TrimSpace ''  hello world  '')"
    unfolding Let_def by blast
  then have b: "Description (Entries (feed (snd (processFeed [''X''] [''X''] (worldOf feedX)))) ! 0) =
      ''hello world''"
    unfolding t0 by simp
  from processFeed_Description [OF l2 r2 m2, of "[''X'']" "[''X'']"]
  have "Description (Entries (feed (snd (processFeed [''X''] [''X''] (worldOf feedX)))) ! 2) =
      take 150 (TrimSpace ('' c'' @ replicate 200 (CHR ''.'') @ ''d  ''))"
    unfolding Let_def by blast
  then have c: "length (Description (Entries (feed (snd (processFeed [''X''] [''X''] (worldOf feedX)))) ! 2)) = 150"
    unfolding t2 by simp
  from a b c show ?thesis by blast
qed

subsection \<open>Descriptions that are not strings\<close>

text \<open>
  C8, amended: for one entry, the computation of lines 152 to 157 succeeds with the empty
  description when \<^verbatim>\<open>meta["description"]\<close> is absent or null, and with the first 150 bytes
  of the trimmed value when it is a string; on any other value (a number, a boolean, an
  array, an object) the type assertion panics. The loop over the entries completes
  exactly when every description is absent, null or a string.
\<close>

theorem describe_cases:
  "(Meta entry ''description'' = None \<or> Meta entry ''description'' = Some JNull
      \<longrightarrow> describe entry = Inr (entry\<lparr>Description := ''''\<rparr>))
   \<and> (\<forall>s. Meta entry ''description'' = Some (JString s)
      \<longrightarrow> describe entry = Inr (entry\<lparr>Description := take 150 (TrimSpace s)\<rparr>))
   \<and> (\<forall>v. Meta entry ''description'' = Some v \<and> v \<noteq> JNull \<and> (\<forall>s. v \<noteq> JString s)
      \<longrightarrow> describe entry = Inl (InterfaceConversion v))
   \<and> (fst (describeEntries entries) = None) =
       (\<forall>e\<in>set entries.
          Meta e ''description'' = None \<or> Meta e ''description'' = Some JNull
          \<or> (\<exists>s. Meta e ''description'' = Some (JString s)))"
proof (intro conjI allI impI)
  assume "Meta entry ''description'' = None \<or> Meta entry ''description'' = Some JNull"
  then show "describe entry = Inr (entry\<lparr>Description := ''''\<rparr>)"
    by (auto simp: describe_def trimmedDescription_def shorten_def)
next
  fix s assume "Meta entry ''description'' = Some (JString s)"
  then show "describe entry = Inr (entry\<lparr>Description := take 150 (TrimSpace s)\<rparr>)"
    by (rule describe_string)
next
  fix v assume "Meta entry ''description'' = Some v \<and> v \<noteq> JNull \<and> (\<forall>s. v \<noteq> JString s)"
  then show "describe entry = Inl (InterfaceConversion v)"
    by (cases v) (simp_all add: describe_def trimmedDescription_def)
next
  show "(fst (describeEntries entries) = None) =
       (\<forall>e\<in>set entries.
          Meta e ''description'' = None \<or> Meta e ''description'' = Some JNull
          \<or> (\<exists>s. Meta e ''description'' = Some (JString s)))"
    unfolding describeEntries_ok describe_succeeds ..
qed

theorem describe_cases_counterexample:
  "fst (processFeed [] [] (worldOf (feedOf Map.empty [itemA, itemD, itemB]))) =
     Some (InterfaceConversion (JNumber 42))"
  by (simp add: example_defs run_defs)

theorem describe_cases_witness:
  "describe itemB = Inr itemB
   \<and> describe itemA = Inr (itemA\<lparr>Description := ''hello world''\<rparr>)
   \<and> describe itemD = Inl (InterfaceConversion (JNumber 42))
   \<and> fst (describeEntries [itemA, itemB]) = None"
proof -
  have t0: "TrimSpace ''  hello world  '' = ''hello world''"
    by (simp add: run_defs)
  have b: "itemB\<lparr>Description := ''''\<rparr> = itemB"
    by (simp add: itemB_def)
  from describe_cases [of itemB "[itemA, itemB]"] describe_cases [of itemA "[]"]
    describe_cases [of itemD "[]"]
  show ?thesis
    unfolding b by (simp add: itemA_def itemB_def itemD_def t0)
qed

subsection \<open>Indices out of range\<close>

text \<open>
  C9: once the descriptions are written, \<^verbatim>\<open>processFeed\<close> completes exactly when every index
  listed by every source is a position of \<^verbatim>\<open>Entries\<close>; otherwise it panics on an index
  that is negative or not below the number of entries.
\<close>

theorem processFeed_index_fault:
  assumes "iteration (Feeds (feed w)) order2"
    and "fst (describeEntries (Entries (feed w))) = None"
  shows "(fst (processFeed order1 order2 w) = None) =
           (\<forall>s\<in>ran (Feeds (feed w)). \<forall>i\<in>set (SourceEntries s).
              0 \<le> i \<and> i < int (length (Entries (feed w))))
    \<and> (fst (processFeed order1 order2 w) = None
        \<or> (\<exists>i. fst (processFeed order1 order2 w) =
                  Some (IndexOutOfRange i (length (Entries (feed w))))
                \<and> \<not> (0 \<le> i \<and> i < int (length (Entries (feed w))))))"
proof -
  let ?es = "snd (describeEntries (Entries (feed w)))"
  let ?g = "groupSources ?es (rangeFeeds (Feeds (feed w)) order2) [''all'' \<mapsto> ?es]"
  have f: "fst (processFeed order1 order2 w) = fst ?g"
    using assms(2) by (simp add: processFeed_fault)
  have len: "length ?es = length (Entries (feed w))"
    by (rule length_describeEntries)
  have "(fst ?g = None) =
          (\<forall>s\<in>ran (Feeds (feed w)). \<forall>i\<in>set (SourceEntries s).
             0 \<le> i \<and> i < int (length (Entries (feed w))))"
    unfolding groupSources_fault rangeFeeds_ran [OF assms(1)] len ..
  moreover have "fst ?g = None
        \<or> (\<exists>i. fst ?g = Some (IndexOutOfRange i (length (Entries (feed w))))
                \<and> \<not> (0 \<le> i \<and> i < int (length (Entries (feed w)))))"
  proof (cases "fst ?g")
    case None
    then show ?thesis by simp
  next
    case (Some flt)
    from groupSources_fault_kind [OF this] show ?thesis
      unfolding len Some by simp
  qed
  ultimately show ?thesis unfolding f by simp
qed

theorem processFeed_index_fault_witness:
  "fst (processFeed [''X''] [''X''] (worldOf feedX)) = None
   \<and> fst (processFeed [''X''] [''X''] (worldOf feedDangling)) = Some (IndexOutOfRange 3 3)"
proof -
  have i: "iteration (Feeds (feed (worldOf feedX))) [''X'']"
      "iteration (Feeds (feed (worldOf feedDangling))) [''X'']"
    by (simp_all add: example_defs iteration_def)
  have d: "fst (describeEntries (Entries (feed (worldOf feedX)))) = None"
      "fst (describeEntries (Entries (feed (worldOf feedDangling)))) = None"
    by (simp_all add: example_defs run_defs)
  from processFeed_index_fault [OF i(1) d(1), of "[''X'']"]
    processFeed_index_fault [OF i(2) d(2), of "[''X'']"]
  show ?thesis
    by (simp add: example_defs run_defs)
qed

subsection \<open>The derived index\<close>

text \<open>
  C1, amended: when \<^verbatim>\<open>processFeed\<close> completes, \<^verbatim>\<open>Items[k]\<close> is, for every key \<open>k\<close>, the
  whole of \<^verbatim>\<open>Entries\<close> if \<open>k\<close> is \<^verbatim>\<open>"all"\<close>, followed by the entries listed by every source
  titled \<open>k\<close>, source after source in the order of the loop. So \<^verbatim>\<open>Items["all"]\<close> is
  \<^verbatim>\<open>Entries\<close>, in its order, when no source is titled \<^verbatim>\<open>"all"\<close>; and for a source \<open>s\<close> whose
  title is not \<^verbatim>\<open>"all"\<close> and is the title of no other source, \<^verbatim>\<open>Items[s.Title]\<close> is the
  sequence of \<^verbatim>\<open>Entries[i]\<close> for the indices \<open>i\<close> of \<^verbatim>\<open>s.Entries\<close>, in the order listed.
\<close>

theorem processFeed_Items_grouping:
  assumes "iteration (Feeds (feed w)) order2"
    and "processFeed order1 order2 w = (None, w')"
  shows "itemsAt (Items (feed w')) k =
           (if k = ''all'' then Entries (feed w') else [])
           @ picked (Entries (feed w')) (rangeFeeds (Feeds (feed w)) order2) k
    \<and> ((\<forall>s\<in>ran (Feeds (feed w)). SourceTitle s \<noteq> ''all'')
         \<longrightarrow> Items (feed w') ''all'' = Some (Entries (feed w')))
    \<and> (Feeds (feed w) key = Some s \<and> SourceTitle s \<noteq> ''all''
          \<and> (\<forall>k' s'. Feeds (feed w) k' = Some s' \<and> SourceTitle s' = SourceTitle s \<longrightarrow> k' = key)
         \<longrightarrow> itemsAt (Items (feed w')) (SourceTitle s) =
               map (\<lambda>i. Entries (feed w') ! nat i) (SourceEntries s))"
proof (intro conjI impI)
  let ?ss = "rangeFeeds (Feeds (feed w)) order2"
  let ?es = "Entries (feed w')"
  show "itemsAt (Items (feed w')) k = (if k = ''all'' then ?es else []) @ picked ?es ?ss k"
    by (rule processFeed_itemsAt [OF assms(2)])
next
  let ?ss = "rangeFeeds (Feeds (feed w)) order2"
  let ?es = "Entries (feed w')"
  assume "\<forall>s\<in>ran (Feeds (feed w)). SourceTitle s \<noteq> ''all''"
  then have "filter (\<lambda>s. SourceTitle s = ''all'') ?ss = []"
    unfolding rangeFeeds_ran [OF assms(1), symmetric] by (simp add: filter_empty_conv)
  then have "picked ?es ?ss ''all'' = []"
    by (simp add: picked_def)
  then show "Items (feed w') ''all'' = Some ?es"
    by (simp add: processFeed_grouped [OF assms(2)])
next
  let ?ss = "rangeFeeds (Feeds (feed w)) order2"
  let ?es = "Entries (feed w')"
  assume a: "Feeds (feed w) key = Some s \<and> SourceTitle s \<noteq> ''all''
          \<and> (\<forall>k' s'. Feeds (feed w) k' = Some s' \<and> SourceTitle s' = SourceTitle s \<longrightarrow> k' = key)"
  from assms(1) a have d: "distinct order2" and kin: "key \<in> set order2"
    by (auto simp: iteration_def)
  have "filter (\<lambda>x. SourceTitle x = SourceTitle s) ?ss = [s]"
  proof (rule filter_rangeFeeds_one [OF d kin])
    show "Feeds (feed w) key = Some s" using a by simp
    show "SourceTitle s = SourceTitle s" by simp
    fix k' s' assume "k' \<in> set order2" "Feeds (feed w) k' = Some s'" "SourceTitle s' = SourceTitle s"
    with a show "k' = key" by blast
  qed
  then have "picked ?es ?ss (SourceTitle s) = map (\<lambda>i. ?es ! nat i) (SourceEntries s)"
    by (simp add: picked_def)
  with a show "itemsAt (Items (feed w')) (SourceTitle s) = map (\<lambda>i. ?es ! nat i) (SourceEntries s)"
    by (simp add: processFeed_itemsAt [OF assms(2)])
qed

theorem processFeed_Items_grouping_counterexample:
  "fst (processFeed [''s''] [''s''] (worldOf feedAll)) = None
   \<and> itemsAt (Items (feed (snd (processFeed [''s''] [''s''] (worldOf feedAll))))) ''all''
       \<noteq> Entries (feed (snd (processFeed [''s''] [''s''] (worldOf feedAll))))
   \<and> length (itemsAt (Items (feed (snd (processFeed [''s''] [''s''] (worldOf feedAll))))) ''all'') = 2
   \<and> length (Entries (feed (snd (processFeed [''s''] [''s''] (worldOf feedAll))))) = 1"
  by (simp add: example_defs run_defs)

theorem processFeed_Items_grouping_witness:
  "itemsAt (Items (feed (snd (processFeed [''X''] [''X''] (worldOf feedX))))) ''X'' =
     [Entries (feed (snd (processFeed [''X''] [''X''] (worldOf feedX)))) ! 0,
      Entries (feed (snd (processFeed [''X''] [''X''] (worldOf feedX)))) ! 2]
   \<and> Items (feed (snd (processFeed [''X''] [''X''] (worldOf feedX)))) ''all'' =
       Some (Entries (feed (snd (processFeed [''X''] [''X''] (worldOf feedX)))))
   \<and> length (Entries (feed (snd (processFeed [''X''] [''X''] (worldOf feedX))))) = 3"
proof -
  have i: "iteration (Feeds (feed (worldOf feedX))) [''X'']"
    by (simp add: example_defs iteration_def)
  have "fst (processFeed [''X''] [''X''] (worldOf feedX)) = None"
    by (simp add: example_defs run_defs)
  then have p: "processFeed [''X''] [''X''] (worldOf feedX) =
      (None, snd (processFeed [''X''] [''X''] (worldOf feedX)))"
    by (simp add: prod_eq_iff)
  have l: "length (Entries (feed (snd (processFeed [''X''] [''X''] (worldOf feedX))))) = 3"
    unfolding processFeed_Entries length_describeEntries by (simp add: example_defs)
  have f: "Feeds (feed (worldOf feedX)) = [''X'' \<mapsto> sourceOf ''X'' [0, 2]]"
    by (simp add: feedX_def feedOf_def worldOf_def)
  have u: "Feeds (feed (worldOf feedX)) ''X'' = Some (sourceOf ''X'' [0, 2])
        \<and> SourceTitle (sourceOf ''X'' [0, 2]) \<noteq> ''all''
        \<and> (\<forall>k' s'. Feeds (feed (worldOf feedX)) k' = Some s'
              \<and> SourceTitle s' = SourceTitle (sourceOf ''X'' [0, 2]) \<longrightarrow> k' = ''X'')"
    unfolding f by (auto simp: sourceOf_def split: if_splits)
  have r: "\<forall>s\<in>ran (Feeds (feed (worldOf feedX))). SourceTitle s \<noteq> ''all''"
    unfolding f by (simp add: sourceOf_def)
  from processFeed_Items_grouping [OF i p, of "''X''" "''X''" "sourceOf ''X'' [0, 2]"] u r
  have "itemsAt (Items (feed (snd (processFeed [''X''] [''X''] (worldOf feedX))))) 
          (SourceTitle (sourceOf ''X'' [0, 2])) =
          map (\<lambda>i. Entries (feed (snd (processFeed [''X''] [''X''] (worldOf feedX)))) ! nat i)
            (SourceEntries (sourceOf ''X'' [0, 2]))
        \<and> Items (feed (snd (processFeed [''X''] [''X''] (worldOf feedX)))) ''all'' =
          Some (Entries (feed (snd (processFeed [''X''] [''X''] (worldOf feedX)))))"
    by blast
  with l show ?thesis
    by (simp add: sourceOf_def)
qed

subsection \<open>Sources with an empty title\<close>

text \<open>
  C10: when \<^verbatim>\<open>processFeed\<close> completes, the empty title has not been sent to the provider,
  yet the entries listed by the sources with an empty title are stored under the key
  \<^verbatim>\<open>""\<close>, and \<^verbatim>\<open>FeedByName("", retriever)\<close> sends them to the retriever; the key exists as
  soon as one such source lists an entry.
\<close>

theorem empty_title_grouped:
  assumes "processFeed order1 order2 w = (None, w')"
  shows "'''' \<notin> set (drop (length (provider w)) (provider w'))
    \<and> itemsAt (Items (feed w')) '''' =
        picked (Entries (feed w')) (rangeFeeds (Feeds (feed w)) order2) ''''
    \<and> FeedByName '''' retriever w' =
        retriever
        @ map (\<lambda>i. AddFeed (Title i) (Description i) (Image i) (Link i))
            (picked (Entries (feed w')) (rangeFeeds (Feeds (feed w)) order2) '''')
        @ [Finish]
    \<and> (iteration (Feeds (feed w)) order2 \<and> Feeds (feed w) key = Some s \<and> SourceTitle s = ''''
          \<and> SourceEntries s \<noteq> []
        \<longrightarrow> Items (feed w') '''' \<noteq> None
            \<and> (\<forall>i\<in>set (SourceEntries s).
                  AddFeed (Title (Entries (feed w') ! nat i)) (Description (Entries (feed w') ! nat i))
                    (Image (Entries (feed w') ! nat i)) (Link (Entries (feed w') ! nat i))
                  \<in> set (FeedByName '''' retriever w')))"
proof (intro conjI impI)
  let ?ss = "rangeFeeds (Feeds (feed w)) order2"
  let ?es = "Entries (feed w')"
  from assms have w': "w' = snd (processFeed order1 order2 w)" by simp
  show "'''' \<notin> set (drop (length (provider w)) (provider w'))"
    unfolding w' processFeed_provider by auto
  show i: "itemsAt (Items (feed w')) '''' = picked ?es ?ss ''''"
    by (simp add: processFeed_itemsAt [OF assms])
  show "FeedByName '''' retriever w' =
        retriever @ map (\<lambda>i. AddFeed (Title i) (Description i) (Image i) (Link i)) (picked ?es ?ss '''')
        @ [Finish]"
    unfolding FeedByName_itemsAt i ..
  assume a: "iteration (Feeds (feed w)) order2 \<and> Feeds (feed w) key = Some s \<and> SourceTitle s = ''''
          \<and> SourceEntries s \<noteq> []"
  then have "s \<in> ran (Feeds (feed w))"
    by (auto simp: ran_def)
  with a have sin: "s \<in> set ?ss"
    by (simp add: rangeFeeds_ran)
  with a have sub: "set (map (\<lambda>i. ?es ! nat i) (SourceEntries s)) \<subseteq> set (picked ?es ?ss '''')"
    unfolding picked_def by auto
  with a have "picked ?es ?ss '''' \<noteq> []" by auto
  then show "Items (feed w') '''' \<noteq> None"
    by (simp add: processFeed_grouped [OF assms])
  show "\<forall>i\<in>set (SourceEntries s).
                  AddFeed (Title (?es ! nat i)) (Description (?es ! nat i))
                    (Image (?es ! nat i)) (Link (?es ! nat i))
                  \<in> set (FeedByName '''' retriever w')"
  proof
    fix j assume "j \<in> set (SourceEntries s)"
    with sub have "?es ! nat j \<in> set (picked ?es ?ss '''')" by auto
    then show "AddFeed (Title (?es ! nat j)) (Description (?es ! nat j))
                    (Image (?es ! nat j)) (Link (?es ! nat j))
                  \<in> set (FeedByName '''' retriever w')"
      unfolding FeedByName_itemsAt i by auto
  qed
qed

theorem empty_title_grouped_witness:
  "provider (snd (processFeed [''anon''] [''anon''] (worldOf feedAnon))) = []
   \<and> FeedByName '''' [] (snd (processFeed [''anon''] [''anon''] (worldOf feedAnon))) =
       [AddFeed ''B'' '''' ''b.png'' ''http://b'', Finish]"
proof -
  have "fst (processFeed [''anon''] [''anon''] (worldOf feedAnon)) = None"
    by (simp add: example_defs run_defs)
  then have p: "processFeed [''anon''] [''anon''] (worldOf feedAnon) =
      (None, snd (processFeed [''anon''] [''anon''] (worldOf feedAnon)))"
    by (simp add: prod_eq_iff)
  have e: "Entries (feed (snd (processFeed [''anon''] [''anon''] (worldOf feedAnon)))) =
      [itemA\<lparr>Description := ''hello world''\<rparr>, itemB]"
    by (simp add: processFeed_Entries example_defs run_defs)
  from empty_title_grouped [OF p, of "[]" "''anon''" "sourceOf '''' [1]"]
  show ?thesis
    unfolding e by (simp add: example_defs picked_def processFeed_provider)
qed

end
